theory Spec2Isabelle
  imports Main
begin

section \<open>Strings and regular expressions\<close>

text \<open>
  A Python \<open>str\<close> is a sequence of code points. It is modelled as a \<open>string\<close>, one
  \<open>char\<close> for one code point, so the model ranges over the strings whose code points are
  below 256.

  \<open>app.py\<close> validates a URL with \<open>re.match\<close> on the pattern
  \<^verbatim>\<open>(https?://)?(www\.)?(youtube|youtu|youtube-nocookie)\.(com|be)/\<close>
  \<^verbatim>\<open>(watch\?v=|embed/|v/|.+\?v=)?([^&=%\?]{11})\<close>.
  \<open>re.match\<close> is a backtracking matcher anchored at the start of the string only. The
  matcher below returns every way the pattern can match a prefix of the input, in the
  order in which the backtracking search of \<open>re\<close> tries them: alternatives from left to
  right, an optional part first taken and then skipped, a greedy \<open>+\<close> from the longest
  run down to one character. \<open>re.match\<close> returns the first of them.
\<close>

text \<open>The one-character items of the pattern: \<open>.\<close> and a negated class \<open>[^...]\<close>.\<close>

datatype cls = Dot | NoneOf "char list"

fun accepts :: "cls \<Rightarrow> char \<Rightarrow> bool" where
  "accepts Dot c = (c \<noteq> CHR 0x0A)"
| "accepts (NoneOf cs) c = (c \<notin> set cs)"

datatype regex =
    Str string
  | Cat regex regex
  | Alt regex regex
  | Opt regex
  | Plus cls
  | Times nat cls
  | Grp nat regex

type_synonym groups = "nat \<Rightarrow> string option"

fun strip_prefix :: "string \<Rightarrow> string \<Rightarrow> string option" where
  "strip_prefix [] s = Some s"
| "strip_prefix (a # w) [] = None"
| "strip_prefix (a # w) (c # s) = (if a = c then strip_prefix w s else None)"

text \<open>The remainders a greedy \<open>x+\<close> can leave, the shortest remainder first.\<close>

fun plus_rests :: "cls \<Rightarrow> string \<Rightarrow> string list" where
  "plus_rests cl [] = []"
| "plus_rests cl (c # s) = (if accepts cl c then plus_rests cl s @ [s] else [])"

fun rmatch :: "regex \<Rightarrow> string \<Rightarrow> groups \<Rightarrow> (string \<times> groups) list" where
  "rmatch (Str w) s g = (case strip_prefix w s of None \<Rightarrow> [] | Some rest \<Rightarrow> [(rest, g)])"
| "rmatch (Cat r1 r2) s g = concat (map (\<lambda>(s1, g1). rmatch r2 s1 g1) (rmatch r1 s g))"
| "rmatch (Alt r1 r2) s g = rmatch r1 s g @ rmatch r2 s g"
| "rmatch (Opt r) s g = rmatch r s g @ [(s, g)]"
| "rmatch (Plus cl) s g = map (\<lambda>rest. (rest, g)) (plus_rests cl s)"
| "rmatch (Times n cl) s g =
     (if n \<le> length s \<and> list_all (accepts cl) (take n s) then [(drop n s, g)] else [])"
| "rmatch (Grp n r) s g =
     map (\<lambda>(rest, g'). (rest, g'(n \<mapsto> take (length s - length rest) s))) (rmatch r s g)"

text \<open>\<open>re.match\<close>: the groups of the first match, \<open>None\<close> when there is none.\<close>

definition re_match :: "regex \<Rightarrow> string \<Rightarrow> groups option" where
  "re_match r s = (case rmatch r s (\<lambda>n. None) of [] \<Rightarrow> None | (rest, g) # others \<Rightarrow> Some g)"

text \<open>
  The pattern, in two parts: everything up to the token (groups 1 to 5), and the token
  (group 6).
\<close>

definition youtube_head :: regex where
  "youtube_head =
     Cat (Opt (Grp 1 (Cat (Str ''http'') (Cat (Opt (Str ''s'')) (Str ''://'')))))
    (Cat (Opt (Grp 2 (Str ''www.'')))
    (Cat (Grp 3 (Alt (Str ''youtube'') (Alt (Str ''youtu'') (Str ''youtube-nocookie''))))
    (Cat (Str ''.'')
    (Cat (Grp 4 (Alt (Str ''com'') (Str ''be'')))
    (Cat (Str ''/'')
         (Opt (Grp 5 (Alt (Str ''watch?v='') (Alt (Str ''embed/'') (Alt (Str ''v/'')
                        (Cat (Plus Dot) (Str ''?v=''))))))))))))"

definition youtube_regex :: regex where
  "youtube_regex = Cat youtube_head (Grp 6 (Times 11 (NoneOf ''&=%?'')))"

definition is_valid_youtube_url :: "string \<Rightarrow> bool" where
  "is_valid_youtube_url url = (re_match youtube_regex url \<noteq> None)"

definition extract_video_id :: "string \<Rightarrow> string option" where
  "extract_video_id url =
     (case re_match youtube_regex url of None \<Rightarrow> None | Some m \<Rightarrow> m 6)"

section \<open>Python built-ins the handlers use\<close>

text \<open>\<open>str.isspace\<close> on the code points below 256, and \<open>str.strip()\<close>.\<close>

definition isspace :: "char \<Rightarrow> bool" where
  "isspace c =
     (let n = (of_char c :: nat)
      in (9 \<le> n \<and> n \<le> 13) \<or> (28 \<le> n \<and> n \<le> 32) \<or> n = 133 \<or> n = 160)"

definition strip :: "string \<Rightarrow> string" where
  "strip s = rev (dropWhile isspace (rev (dropWhile isspace s)))"

text \<open>\<open>str(i)\<close> for an \<open>int\<close>, as the f-string \<^verbatim>\<open>f"{fmt['height']}p"\<close> formats it.\<close>

fun digits :: "nat \<Rightarrow> string" where
  "digits n =
     (if n < 10 then [''0123456789'' ! n]
      else digits (n div 10) @ [''0123456789'' ! (n mod 10)])"

declare digits.simps [simp del]

definition py_str :: "int \<Rightarrow> string" where
  "py_str i = (if i < 0 then CHR ''-'' # digits (nat (- i)) else digits (nat i))"

text \<open>\<open>s.replace(old, new)\<close> for a one-character \<open>old\<close>.\<close>

definition replace :: "char \<Rightarrow> string \<Rightarrow> string \<Rightarrow> string" where
  "replace old new s = concat (map (\<lambda>c. if c = old then new else [c]) s)"

datatype exn = DownloadError | ValueError | OSError | OtherError

text \<open>
  \<open>int(s)\<close> on a decimal literal: an optional sign and one or more ASCII digits; anything
  else raises \<open>ValueError\<close>. (Python also accepts surrounding whitespace, underscores
  between digits and non-ASCII digits; the strings that reach \<open>int\<close> in \<open>app.py\<close> are
  \<open>str\<close> of an \<open>int\<close>, which have none of these.)
\<close>

definition is_digit :: "char \<Rightarrow> bool" where
  "is_digit c = (c \<in> set ''0123456789'')"

definition digit_val :: "char \<Rightarrow> nat" where
  "digit_val c = of_char c - 48"

definition py_int :: "string \<Rightarrow> exn + int" where
  "py_int s =
     (let neg = (case s of [] \<Rightarrow> False | c # t \<Rightarrow> c = CHR ''-'');
          body = (case s of [] \<Rightarrow> [] | c # t \<Rightarrow> if c = CHR ''-'' \<or> c = CHR ''+'' then t else s)
      in if body \<noteq> [] \<and> list_all is_digit body
         then (let v = int (foldl (\<lambda>a c. 10 * a + digit_val c) 0 body)
               in Inr (if neg then - v else v))
         else Inl ValueError)"

text \<open>
  \<open>xs.sort(key=f, reverse=True)\<close>: the keys are computed first, one call of \<open>f\<close> for
  each element in order, and an exception of \<open>f\<close> leaves the sort; the sort is stable,
  and \<open>reverse=True\<close> keeps the elements of equal keys in their original order.
\<close>

fun sort_keys :: "('a \<Rightarrow> exn + int) \<Rightarrow> 'a list \<Rightarrow> exn + int list" where
  "sort_keys f [] = Inr []"
| "sort_keys f (x # xs) =
     (case f x of
        Inl e \<Rightarrow> Inl e
      | Inr k \<Rightarrow> (case sort_keys f xs of Inl e \<Rightarrow> Inl e | Inr ks \<Rightarrow> Inr (k # ks)))"

definition sort_reverse :: "('a \<Rightarrow> exn + int) \<Rightarrow> 'a list \<Rightarrow> exn + 'a list" where
  "sort_reverse f xs =
     (case sort_keys f xs of
        Inl e \<Rightarrow> Inl e
      | Inr ks \<Rightarrow> Inr (map snd (sort_key (\<lambda>p. - fst p) (zip ks xs))))"

text \<open>\<open>os.path.join(a, b)\<close> on POSIX paths.\<close>

definition path_join :: "string \<Rightarrow> string \<Rightarrow> string" where
  "path_join a b =
     (if b \<noteq> [] \<and> hd b = CHR ''/'' then b
      else if a = [] \<or> last a = CHR ''/'' then a @ b
      else a @ ''/'' @ b)"

section \<open>The format catalog of \<open>get_video_info\<close>\<close>

text \<open>
  One element of \<open>info['formats']\<close>, as the extraction library reports it. A field that
  \<open>app.py\<close> reads with \<open>fmt.get\<close> is optional (\<open>None\<close>: the key is absent or holds
  \<open>None\<close>); \<open>format_id\<close> is read with \<open>fmt['format_id']\<close> and the library always sets
  it. \<open>filesize\<close> and \<open>fps\<close> are copied and never inspected.
\<close>

record raw_format =
  format_id :: string
  vcodec :: "string option"
  height :: "int option"
  ext :: "string option"
  filesize :: "int option"
  fps :: "int option"

text \<open>One element of the list \<open>formats\<close> that the handler returns.\<close>

record format_entry =
  entry_format_id :: string
  quality :: string
  entry_ext :: string
  entry_filesize :: "int option"
  entry_fps :: "int option"

text \<open>The dictionary \<open>info\<close> that \<open>extract_info\<close> returns.\<close>

record info =
  info_title :: "string option"
  info_duration :: "int option"
  info_thumbnail :: "string option"
  info_uploader :: "string option"
  info_view_count :: "int option"
  info_formats :: "raw_format list option"

text \<open>
  The local variables of lines 65 to 95: \<open>info\<close>, \<open>formats\<close> and \<open>seen_qualities\<close>. Every
  statement is a function from the frame to the frame.
\<close>

record frame =
  info :: info
  formats :: "format_entry list"
  seen_qualities :: "string set"

text \<open>The body of the \<open>for\<close> loop, lines 73 to 83.\<close>

definition visit :: "raw_format \<Rightarrow> frame \<Rightarrow> frame" where
  "visit fmt fr =
     (case height fmt of
        None \<Rightarrow> fr
      | Some h \<Rightarrow>
          if vcodec fmt \<noteq> Some ''none'' \<and> h \<noteq> 0 then
            (let q = py_str h @ ''p''
             in if q \<notin> seen_qualities fr then
                  fr\<lparr>formats := formats fr @
                        [\<lparr>entry_format_id = format_id fmt,
                          quality = q,
                          entry_ext = (case ext fmt of None \<Rightarrow> ''mp4'' | Some e \<Rightarrow> e),
                          entry_filesize = filesize fmt,
                          entry_fps = fps fmt\<rparr>],
                     seen_qualities := insert q (seen_qualities fr)\<rparr>
                else fr)
          else fr)"

text \<open>The key of the sort, line 86: \<^verbatim>\<open>int(x['quality'].replace('p', ''))\<close>.\<close>

definition quality_key :: "format_entry \<Rightarrow> exn + int" where
  "quality_key x = py_int (replace CHR ''p'' [] (quality x))"

definition audio_entry :: format_entry where
  "audio_entry =
     \<lparr>entry_format_id = ''bestaudio'',
      quality = ''Audio Only (MP3)'',
      entry_ext = ''mp3'',
      entry_filesize = None,
      entry_fps = None\<rparr>"

text \<open>Lines 68 to 95: the loop, the sort and the audio entry.\<close>

definition get_formats :: "frame \<Rightarrow> exn + frame" where
  "get_formats fr =
     (let fr1 = fr\<lparr>formats := [], seen_qualities := {}\<rparr>;
          fr2 = (case info_formats (info fr1) of
                   None \<Rightarrow> fr1
                 | Some fmts \<Rightarrow> foldl (\<lambda>f fmt. visit fmt f) fr1 fmts)
      in case sort_reverse quality_key (formats fr2) of
           Inl e \<Rightarrow> Inl e
         | Inr ordered \<Rightarrow> Inr (fr2\<lparr>formats := ordered @ [audio_entry]\<rparr>))"

text \<open>
  The dictionary \<open>video_info\<close>, lines 97 to 104. Its key \<open>formats\<close>, which holds
  \<open>formats[:10]\<close>, is the field \<open>catalog\<close> here.
\<close>

record video_info =
  title :: string
  duration :: int
  thumbnail :: string
  uploader :: string
  view_count :: int
  catalog :: "format_entry list"

definition get_or :: "'a option \<Rightarrow> 'a \<Rightarrow> 'a" where
  "get_or v d = (case v of None \<Rightarrow> d | Some x \<Rightarrow> x)"

definition make_video_info :: "frame \<Rightarrow> video_info" where
  "make_video_info fr =
     \<lparr>title = get_or (info_title (info fr)) ''Unknown Title'',
      duration = get_or (info_duration (info fr)) 0,
      thumbnail = get_or (info_thumbnail (info fr)) [],
      uploader = get_or (info_uploader (info fr)) ''Unknown'',
      view_count = get_or (info_view_count (info fr)) 0,
      catalog = take 10 (formats fr)\<rparr>"

text \<open>
  The catalog builder on its own: lines 68 to 103 on the formats that the library
  reported, from the first assignment to the slice.
\<close>

definition build_catalog :: "raw_format list option \<Rightarrow> exn + format_entry list" where
  "build_catalog fmts =
     (case get_formats
             \<lparr>info = \<lparr>info_title = None, info_duration = None, info_thumbnail = None,
                      info_uploader = None, info_view_count = None, info_formats = fmts\<rparr>,
              formats = [], seen_qualities = {}\<rparr> of
        Inl e \<Rightarrow> Inl e
      | Inr fr \<Rightarrow> Inr (catalog (make_video_info fr)))"

section \<open>The extraction library and the world of a request\<close>

text \<open>
  The options dictionary \<open>ydl_opts\<close> handed to \<open>yt_dlp.YoutubeDL\<close>; a key that a
  dictionary does not have is \<open>None\<close>.
\<close>

record postprocessor =
  key :: string
  preferredcodec :: string
  preferredquality :: string

record ydl_opts =
  quiet :: "bool option"
  no_warnings :: "bool option"
  extract_flat :: "bool option"
  cookies :: "string option"
  format :: "string option"
  outtmpl :: "string option"
  postprocessors :: "postprocessor list option"

text \<open>
  What a name in a directory stands for: a regular file, which \<open>send_file\<close> can open, or
  a directory, on which it raises. A directory is listed as its entries, in the order in
  which \<open>os.listdir\<close> returns their names.
\<close>

datatype node = Regular_file | Directory

type_synonym dir_listing = "(string \<times> node) list"

text \<open>
  The library is a parameter of the model. \<open>extract_info\<close> returns the dictionary
  \<open>info\<close> or raises. \<open>download\<close> leaves the destination directory with some entries
  and returns or raises.
\<close>

record engine =
  extract_info :: "ydl_opts \<Rightarrow> string \<Rightarrow> exn + info"
  download :: "ydl_opts \<Rightarrow> string \<Rightarrow> dir_listing \<times> exn option"

datatype engine_call = Extract_info ydl_opts string | Download ydl_opts string

text \<open>
  What a request can change: the directories of the file system with their listings,
  the counter from which \<open>tempfile.mkdtemp\<close> names its next directory, and the calls made
  to the library so far.
\<close>

record world =
  fs :: "string \<Rightarrow> dir_listing option"
  tmp_seq :: nat
  calls :: "engine_call list"

text \<open>
  \<open>tempfile.mkdtemp()\<close> creates an empty directory and returns its path. (The real name
  is random; the model numbers the directories.)
\<close>

definition mkdtemp :: "world \<Rightarrow> string \<times> world" where
  "mkdtemp w =
     (let d = ''/tmp/tmp'' @ digits (tmp_seq w)
      in (d, w\<lparr>fs := (fs w)(d \<mapsto> []), tmp_seq := Suc (tmp_seq w)\<rparr>))"

text \<open>
  What a handler returns: \<open>jsonify(video_info)\<close>; \<open>jsonify({'error': message})\<close> with a
  status; \<open>flash(message, category)\<close> followed by \<open>redirect(url_for('index'))\<close>; or the
  file at a path, sent under a download name.
\<close>

datatype response =
    Json video_info
  | Json_error string nat
  | Flash_redirect string string
  | Send_file string string

text \<open>\<open>os.listdir(d)\<close>: the names in the directory, or \<open>OSError\<close> when there is none.\<close>

definition listdir :: "world \<Rightarrow> string \<Rightarrow> exn + string list" where
  "listdir w d = (case fs w d of None \<Rightarrow> Inl OSError | Some entries \<Rightarrow> Inr (map fst entries))"

text \<open>
  \<open>send_file(os.path.join(d, name), as_attachment=True, download_name=name)\<close> opens the
  file to send it: it raises \<open>OSError\<close> when the path is a directory or names nothing.
\<close>

definition send_file :: "world \<Rightarrow> string \<Rightarrow> string \<Rightarrow> exn + response" where
  "send_file w d name =
     (case fs w d of
        None \<Rightarrow> Inl OSError
      | Some entries \<Rightarrow>
          (case map_of entries name of
             Some Regular_file \<Rightarrow> Inr (Send_file (path_join d name) name)
           | Some Directory \<Rightarrow> Inl OSError
           | None \<Rightarrow> Inl OSError))"

text \<open>The form of a request: \<open>request.form\<close>.\<close>

type_synonym form = "string \<Rightarrow> string option"

text \<open>
  Lines 47 and 119: \<^verbatim>\<open>request.form.get('url', '').strip()\<close>, the URL that a handler
  validates and hands to the library.
\<close>

definition request_url :: "form \<Rightarrow> string" where
  "request_url frm = strip (get_or (frm ''url'') [])"

section \<open>\<open>get_video_info\<close>\<close>

text \<open>The two \<open>except\<close> clauses of \<open>get_video_info\<close>, lines 108 to 113.\<close>

definition info_failure :: "exn \<Rightarrow> response" where
  "info_failure e =
     (if e = DownloadError
      then Json_error ''Failed to fetch video information. Please check the URL and try again.'' 400
      else Json_error ''An unexpected error occurred. Please try again.'' 500)"

text \<open>The options of lines 56 to 61.\<close>

definition info_opts :: ydl_opts where
  "info_opts =
     \<lparr>quiet = Some True, no_warnings = Some True, extract_flat = Some False,
      cookies = Some ''cookies.txt'', format = None, outtmpl = None, postprocessors = None\<rparr>"

definition get_video_info :: "engine \<Rightarrow> form \<Rightarrow> world \<Rightarrow> response \<times> world" where
  "get_video_info eng frm w =
     (let url = request_url frm
      in if url = [] then (Json_error ''Please enter a YouTube URL'' 400, w)
         else if \<not> is_valid_youtube_url url
         then (Json_error ''Please enter a valid YouTube URL'' 400, w)
         else
           (let ydl_opts = info_opts;
                w1 = w\<lparr>calls := calls w @ [Extract_info ydl_opts url]\<rparr>
            in case extract_info eng ydl_opts url of
                 Inl e \<Rightarrow> (info_failure e, w1)
               | Inr i \<Rightarrow>
                   (case get_formats \<lparr>info = i, formats = [], seen_qualities = {}\<rparr> of
                      Inl e \<Rightarrow> (info_failure e, w1)
                    | Inr fr \<Rightarrow> (Json (make_video_info fr), w1))))"

section \<open>\<open>download_video\<close>\<close>

text \<open>
  The options of lines 130 to 147, from the chosen \<open>format_id\<close> (here \<open>choice\<close>) and the
  directory.
\<close>

definition download_opts :: "string \<Rightarrow> string \<Rightarrow> ydl_opts" where
  "download_opts choice temp_dir =
     (if choice = ''bestaudio'' then
        \<lparr>quiet = None, no_warnings = None, extract_flat = None,
         cookies = Some ''/etc/secrets/cookies.txt'',
         format = Some ''bestaudio/best'',
         outtmpl = Some (path_join temp_dir ''%(title)s.%(ext)s''),
         postprocessors = Some [\<lparr>key = ''FFmpegExtractAudio'', preferredcodec = ''mp3'',
                                  preferredquality = ''192''\<rparr>]\<rparr>
      else
        \<lparr>quiet = None, no_warnings = None, extract_flat = None,
         cookies = Some ''/etc/secrets/cookies.txt'',
         format = Some choice,
         outtmpl = Some (path_join temp_dir ''%(title)s.%(ext)s''),
         postprocessors = None\<rparr>)"

text \<open>Line 120: \<^verbatim>\<open>request.form.get('format_id', 'best')\<close>.\<close>

definition chosen_format :: "form \<Rightarrow> string" where
  "chosen_format frm = get_or (frm ''format_id'') ''best''"

text \<open>The two \<open>except\<close> clauses of \<open>download_video\<close>, lines 172 to 179.\<close>

definition download_failure :: "exn \<Rightarrow> response" where
  "download_failure e =
     (if e = DownloadError
      then Flash_redirect ''Download failed. Please try again with a different quality option.''
             ''error''
      else Flash_redirect ''An unexpected error occurred during download.'' ''error'')"

definition download_video :: "engine \<Rightarrow> form \<Rightarrow> world \<Rightarrow> response \<times> world" where
  "download_video eng frm w =
     (let url = request_url frm;
          choice = chosen_format frm
      in if url = [] \<or> \<not> is_valid_youtube_url url
         then (Flash_redirect ''Invalid YouTube URL'' ''error'', w)
         else
           (let (temp_dir, w1) = mkdtemp w;
                ydl_opts = download_opts choice temp_dir;
                w2 = w1\<lparr>calls := calls w1 @ [Extract_info ydl_opts url]\<rparr>
            in case extract_info eng ydl_opts url of
                 Inl e \<Rightarrow> (download_failure e, w2)
               | Inr i \<Rightarrow>
                   (let (listing, raised) = download eng ydl_opts url;
                        w3 = w2\<lparr>calls := calls w2 @ [Download ydl_opts url],
                                fs := (fs w2)(temp_dir \<mapsto> listing)\<rparr>
                    in case raised of
                         Some e \<Rightarrow> (download_failure e, w3)
                       | None \<Rightarrow>
                           (case listdir w3 temp_dir of
                              Inl e \<Rightarrow> (download_failure e, w3)
                            | Inr downloaded_files \<Rightarrow>
                                (case downloaded_files of
                                   [] \<Rightarrow>
                                     (Flash_redirect ''Download failed. No file was created.''
                                        ''error'', w3)
                                 | f # others \<Rightarrow>
                                     (case send_file w3 temp_dir f of
                                        Inl e \<Rightarrow> (download_failure e, w3)
                                      | Inr sent \<Rightarrow> (sent, w3)))))))"

section \<open>Notions the properties are stated with\<close>

subsection \<open>The strings a pattern matches\<close>

text \<open>
  The language of a pattern, independent of the order in which the matcher searches; the
  matcher is related to it below (\<open>rmatch_sound\<close>, \<open>rmatch_complete\<close>).
\<close>

fun lang :: "regex \<Rightarrow> string set" where
  "lang (Str w) = {w}"
| "lang (Cat a b) = {u @ v | u v. u \<in> lang a \<and> v \<in> lang b}"
| "lang (Alt a b) = lang a \<union> lang b"
| "lang (Opt r) = insert [] (lang r)"
| "lang (Plus cl) = {w. w \<noteq> [] \<and> list_all (accepts cl) w}"
| "lang (Times n cl) = {w. length w = n \<and> list_all (accepts cl) w}"
| "lang (Grp n r) = lang r"

text \<open>
  The shape of a recognised URL, in words: an optional scheme, an optional \<open>www.\<close>, one of
  three host names, a dot, \<open>com\<close> or \<open>be\<close>, a slash, an optional path marker, and then the
  token. A path marker is \<open>watch?v=\<close>, \<open>embed/\<close>, \<open>v/\<close>, or any non-empty text without a
  line feed followed by \<open>?v=\<close>.
\<close>

definition path_marker :: "string \<Rightarrow> bool" where
  "path_marker m \<longleftrightarrow>
     m \<in> {[], ''watch?v='', ''embed/'', ''v/''} \<or>
     (\<exists>x. x \<noteq> [] \<and> CHR 0x0A \<notin> set x \<and> m = x @ ''?v='')"

definition video_prefix :: "string \<Rightarrow> bool" where
  "video_prefix pre \<longleftrightarrow>
     (\<exists>scheme www host tld marker.
        pre = scheme @ www @ host @ ''.'' @ tld @ ''/'' @ marker \<and>
        scheme \<in> {[], ''http://'', ''https://''} \<and>
        www \<in> {[], ''www.''} \<and>
        host \<in> {''youtube'', ''youtu'', ''youtube-nocookie''} \<and>
        tld \<in> {''com'', ''be''} \<and>
        path_marker marker)"

text \<open>The token as the pattern accepts it: 11 characters, none of them \<open>&\<close>, \<open>=\<close>, \<open>%\<close>, \<open>?\<close>.\<close>

definition token :: "string \<Rightarrow> bool" where
  "token tok \<longleftrightarrow> length tok = 11 \<and> set tok \<inter> set ''&=%?'' = {}"

text \<open>The characters of a video identifier: alphanumeric, \<open>-\<close> or \<open>_\<close>.\<close>

definition video_id_char :: "char \<Rightarrow> bool" where
  "video_id_char c =
     (c \<in> set ''ABCDEFGHIJKLMNOPQRSTUVWXYZabcdefghijklmnopqrstuvwxyz0123456789-_'')"

subsection \<open>The catalog, in the words of its description\<close>

text \<open>
  A reported format goes into the video part of the catalog when line 73 lets it through:
  its \<open>vcodec\<close> is not the string \<open>none\<close> and its \<open>height\<close> is truthy, that is, present and
  not zero.
\<close>

definition video_format :: "raw_format \<Rightarrow> bool" where
  "video_format f =
     (case height f of None \<Rightarrow> False | Some h \<Rightarrow> vcodec f \<noteq> Some ''none'' \<and> h \<noteq> 0)"

definition height_of :: "raw_format \<Rightarrow> int" where
  "height_of f = get_or (height f) 0"

text \<open>The quality label \<^verbatim>\<open>"{height}p"\<close>.\<close>

definition label :: "raw_format \<Rightarrow> string" where
  "label f = py_str (height_of f) @ ''p''"

definition to_entry :: "raw_format \<Rightarrow> format_entry" where
  "to_entry f =
     \<lparr>entry_format_id = format_id f,
      quality = label f,
      entry_ext = get_or (ext f) ''mp4'',
      entry_filesize = filesize f,
      entry_fps = fps f\<rparr>"

text \<open>Of the formats that share a label, the first one met; the others are dropped.\<close>

fun first_per_label :: "raw_format list \<Rightarrow> raw_format list" where
  "first_per_label [] = []"
| "first_per_label (f # rest) =
     f # first_per_label (filter (\<lambda>g. label g \<noteq> label f) rest)"

text \<open>
  The video formats, one for each label, by height from the tallest down; a stable sort,
  so formats of equal height would stay in the order in which they were met.
\<close>

definition ranked :: "raw_format list \<Rightarrow> raw_format list" where
  "ranked fmts = sort_key (\<lambda>f. - height_of f) (first_per_label (filter video_format fmts))"

subsection \<open>Example inputs\<close>

definition video :: "string \<Rightarrow> int \<Rightarrow> raw_format" where
  "video i h =
     \<lparr>format_id = i, vcodec = Some ''avc1'', height = Some h, ext = Some ''mp4'',
      filesize = None, fps = Some 30\<rparr>"

definition ten_heights :: "raw_format list" where
  "ten_heights =
     [video ''160'' 144, video ''133'' 240, video ''134'' 360, video ''135'' 480,
      video ''136'' 720, video ''137'' 1080, video ''271'' 1440, video ''313'' 2160,
      video ''571'' 4320, video ''597'' 72]"

text \<open>
  A world with no directory yet, the \<open>info\<close> of a video, and three libraries: one that
  downloads a single file, one whose download fails after it has written a partial file,
  and one that leaves a directory where the file should be.
\<close>

definition empty_world :: world where
  "empty_world = \<lparr>fs = (\<lambda>d. None), tmp_seq = 0, calls = []\<rparr>"

definition some_info :: info where
  "some_info =
     \<lparr>info_title = Some ''Some video'', info_duration = Some 212, info_thumbnail = None,
      info_uploader = None, info_view_count = None,
      info_formats = Some [video ''22'' 720, video ''18'' 480, video ''136'' 720]\<rparr>"

definition good_engine :: engine where
  "good_engine =
     \<lparr>extract_info = (\<lambda>opts url. Inr some_info),
      download = (\<lambda>opts url. ([(''Some video.mp3'', Regular_file)], None))\<rparr>"

definition failing_engine :: engine where
  "failing_engine =
     \<lparr>extract_info = (\<lambda>opts url. Inr some_info),
      download = (\<lambda>opts url. ([(''Some video.mp4.part'', Regular_file)], Some DownloadError))\<rparr>"

definition nesting_engine :: engine where
  "nesting_engine =
     \<lparr>extract_info = (\<lambda>opts url. Inr some_info),
      download = (\<lambda>opts url. ([(''Some video'', Directory)], None))\<rparr>"

definition audio_request :: form where
  "audio_request =
     [''url'' \<mapsto> ''https://www.youtube.com/watch?v=dQw4w9WgXcQ'',
      ''format_id'' \<mapsto> ''bestaudio'']"

section \<open>The matcher and the language of a pattern\<close>

lemma strip_prefix_Some: "strip_prefix w s = Some rest \<longleftrightarrow> s = w @ rest"
  by (induction w s rule: strip_prefix.induct) auto

lemma strip_prefix_Some2: "Some rest = strip_prefix w s \<longleftrightarrow> s = w @ rest"
  using strip_prefix_Some[of w s rest] by auto

lemma plus_rests_iff:
  "rest \<in> set (plus_rests cl s) \<longleftrightarrow> (\<exists>w. w \<noteq> [] \<and> list_all (accepts cl) w \<and> s = w @ rest)"
proof (induction s)
  case Nil
  then show ?case by simp
next
  case (Cons c s)
  show ?case
  proof
    assume "rest \<in> set (plus_rests cl (c # s))"
    then have c: "accepts cl c" and d: "rest \<in> set (plus_rests cl s) \<or> rest = s"
      by (auto split: if_splits)
    from d show "\<exists>w. w \<noteq> [] \<and> list_all (accepts cl) w \<and> c # s = w @ rest"
    proof
      assume "rest \<in> set (plus_rests cl s)"
      then obtain w where "w \<noteq> []" "list_all (accepts cl) w" "s = w @ rest"
        using Cons.IH by blast
      then have "c # w \<noteq> [] \<and> list_all (accepts cl) (c # w) \<and> c # s = (c # w) @ rest"
        using c by simp
      then show ?thesis by blast
    next
      assume "rest = s"
      then have "[c] \<noteq> [] \<and> list_all (accepts cl) [c] \<and> c # s = [c] @ rest"
        using c by simp
      then show ?thesis by blast
    qed
  next
    assume "\<exists>w. w \<noteq> [] \<and> list_all (accepts cl) w \<and> c # s = w @ rest"
    then obtain w where w: "w \<noteq> []" "list_all (accepts cl) w" "c # s = w @ rest"
      by blast
    then obtain w' where w': "w = c # w'" "s = w' @ rest"
      by (cases w) auto
    show "rest \<in> set (plus_rests cl (c # s))"
    proof (cases "w' = []")
      case True
      then show ?thesis using w w' by simp
    next
      case False
      then have "rest \<in> set (plus_rests cl s)"
        using Cons.IH w w' by auto
      then show ?thesis using w w' by simp
    qed
  qed
qed

lemma rmatch_sound:
  "(rest, g') \<in> set (rmatch r s g) \<Longrightarrow> \<exists>w \<in> lang r. s = w @ rest"
proof (induction r arbitrary: s g rest g')
  case (Str w)
  then show ?case by (auto simp: strip_prefix_Some strip_prefix_Some2 split: option.splits)
next
  case (Cat a b)
  then obtain s1 g1 where a: "(s1, g1) \<in> set (rmatch a s g)"
    and b: "(rest, g') \<in> set (rmatch b s1 g1)"
    by auto
  from Cat.IH(1)[OF a] obtain u where u: "u \<in> lang a" "s = u @ s1" by blast
  from Cat.IH(2)[OF b] obtain v where v: "v \<in> lang b" "s1 = v @ rest" by blast
  have "u @ v \<in> lang (Cat a b)" using u v by auto
  moreover have "s = (u @ v) @ rest" using u v by simp
  ultimately show ?case by blast
next
  case (Alt a b)
  from Alt.prems have "(rest, g') \<in> set (rmatch a s g) \<or> (rest, g') \<in> set (rmatch b s g)"
    by simp
  then show ?case
  proof
    assume "(rest, g') \<in> set (rmatch a s g)"
    from Alt.IH(1)[OF this] show ?thesis by auto
  next
    assume "(rest, g') \<in> set (rmatch b s g)"
    from Alt.IH(2)[OF this] show ?thesis by auto
  qed
next
  case (Opt r)
  from Opt.prems have "(rest, g') \<in> set (rmatch r s g) \<or> rest = s"
    by auto
  then show ?case
  proof
    assume "(rest, g') \<in> set (rmatch r s g)"
    from Opt.IH[OF this] show ?thesis by auto
  next
    assume "rest = s"
    then show ?thesis by simp
  qed
next
  case (Plus cl)
  then have "rest \<in> set (plus_rests cl s)" by auto
  then show ?case by (auto simp: plus_rests_iff)
next
  case (Times n cl)
  then have h: "n \<le> length s" "list_all (accepts cl) (take n s)" "rest = drop n s"
    by (auto split: if_splits)
  then have "take n s \<in> lang (Times n cl)" "s = take n s @ rest" by auto
  then show ?case by blast
next
  case (Grp n r)
  then show ?case by auto
qed

lemma rmatch_complete:
  "w \<in> lang r \<Longrightarrow> \<exists>g'. (rest, g') \<in> set (rmatch r (w @ rest) g)"
proof (induction r arbitrary: w rest g)
  case (Str x)
  then show ?case by (auto simp: strip_prefix_Some strip_prefix_Some2 split: option.splits)
next
  case (Cat a b)
  then obtain u v where uv: "w = u @ v" "u \<in> lang a" "v \<in> lang b" by auto
  from Cat.IH(1)[OF uv(2)] obtain g1 where g1: "(v @ rest, g1) \<in> set (rmatch a (u @ v @ rest) g)"
    by blast
  from Cat.IH(2)[OF uv(3)] obtain g2 where g2: "(rest, g2) \<in> set (rmatch b (v @ rest) g1)"
    by blast
  show ?case using g1 g2 uv(1) by force
next
  case (Alt a b)
  then show ?case by fastforce
next
  case (Opt r)
  then show ?case by fastforce
next
  case (Plus cl)
  then have "rest \<in> set (plus_rests cl (w @ rest))"
    by (auto simp: plus_rests_iff)
  then show ?case by auto
next
  case (Times n cl)
  then show ?case by auto
next
  case (Grp n r)
  then obtain g' where "(rest, g') \<in> set (rmatch r (w @ rest) g)" by fastforce
  then show ?case by force
qed

lemma rmatch_Grp:
  assumes "(rest, g') \<in> set (rmatch (Grp n r) s g)"
  shows "\<exists>w \<in> lang r. s = w @ rest \<and> g' n = Some w"
proof -
  from assms obtain g0 where g0: "(rest, g0) \<in> set (rmatch r s g)"
    and g': "g' = g0(n \<mapsto> take (length s - length rest) s)"
    by auto
  from rmatch_sound[OF g0] obtain w where w: "w \<in> lang r" "s = w @ rest" by blast
  then have "g' n = Some w" using g' by simp
  then show ?thesis using w by blast
qed

lemma rmatch_Cat:
  "(rest, g') \<in> set (rmatch (Cat a b) s g) \<longleftrightarrow>
   (\<exists>s1 g1. (s1, g1) \<in> set (rmatch a s g) \<and> (rest, g') \<in> set (rmatch b s1 g1))"
  by auto

text \<open>The language of the pattern of \<open>app.py\<close>, part by part.\<close>

lemma list_all_Dot: "list_all (accepts Dot) x \<longleftrightarrow> CHR 0x0A \<notin> set x"
  by (induction x) auto

lemma list_all_NoneOf: "list_all (accepts (NoneOf cs)) x \<longleftrightarrow> set x \<inter> set cs = {}"
  by (induction x) auto

lemma lang_marker:
  "lang (Opt (Grp 5 (Alt (Str ''watch?v='') (Alt (Str ''embed/'') (Alt (Str ''v/'')
                        (Cat (Plus Dot) (Str ''?v=''))))))) = {m. path_marker m}"
  by (auto simp: path_marker_def list_all_Dot)

lemma lang_token: "lang (Times 11 (NoneOf ''&=%?'')) = {tok. token tok}"
  unfolding token_def lang.simps list_all_NoneOf by simp

lemma lang_Cat_iff: "w \<in> lang (Cat a b) \<longleftrightarrow> (\<exists>u v. w = u @ v \<and> u \<in> lang a \<and> v \<in> lang b)"
  by auto

lemma lang_Cat_Str: "lang (Cat (Str a) r) = (@) a ` lang r"
  by auto

lemma lang_Cat_Opt: "lang (Cat (Opt a) r) = lang (Cat a r) \<union> lang r"
  by fastforce

lemma lang_scheme:
  "lang (Opt (Grp 1 (Cat (Str ''http'') (Cat (Opt (Str ''s'')) (Str ''://''))))) =
   {[], ''http://'', ''https://''}"
  unfolding lang.simps(4,7) lang_Cat_Str lang_Cat_Opt by auto

lemma lang_www: "lang (Opt (Grp 2 (Str ''www.''))) = {[], ''www.''}"
  by simp

lemma lang_host:
  "lang (Grp 3 (Alt (Str ''youtube'') (Alt (Str ''youtu'') (Str ''youtube-nocookie'')))) =
   {''youtube'', ''youtu'', ''youtube-nocookie''}"
  by auto

lemma lang_tld: "lang (Grp 4 (Alt (Str ''com'') (Str ''be''))) = {''com'', ''be''}"
  by auto

lemma lang_Str_iff: "w \<in> lang (Str x) \<longleftrightarrow> w = x"
  by simp

lemma lang_CatI: "u \<in> lang a \<Longrightarrow> v \<in> lang b \<Longrightarrow> u @ v \<in> lang (Cat a b)"
  by auto

lemma lang_CatE:
  assumes "w \<in> lang (Cat a b)"
  obtains u v where "w = u @ v" "u \<in> lang a" "v \<in> lang b"
  using assms by auto

lemma lang_youtube_head: "pre \<in> lang youtube_head \<longleftrightarrow> video_prefix pre"
proof
  assume "pre \<in> lang youtube_head"
  then obtain scheme www host dot tld slash marker where
    pre: "pre = scheme @ www @ host @ dot @ tld @ slash @ marker"
    and parts:
      "scheme \<in> lang (Opt (Grp 1 (Cat (Str ''http'') (Cat (Opt (Str ''s'')) (Str ''://'')))))"
      "www \<in> lang (Opt (Grp 2 (Str ''www.'')))"
      "host \<in> lang (Grp 3 (Alt (Str ''youtube'') (Alt (Str ''youtu'') (Str ''youtube-nocookie''))))"
      "dot \<in> lang (Str ''.'')"
      "tld \<in> lang (Grp 4 (Alt (Str ''com'') (Str ''be'')))"
      "slash \<in> lang (Str ''/'')"
      "marker \<in> lang (Opt (Grp 5 (Alt (Str ''watch?v='') (Alt (Str ''embed/'') (Alt (Str ''v/'')
                        (Cat (Plus Dot) (Str ''?v='')))))))"
    unfolding youtube_head_def by (elim lang_CatE) simp
  from parts(4,6) have "dot = ''.''" "slash = ''/''"
    by simp_all
  with pre parts(1,2,3,5,7) show "video_prefix pre"
    unfolding video_prefix_def lang_scheme lang_www lang_host lang_tld lang_marker
    by blast
next
  assume "video_prefix pre"
  then obtain scheme www host tld marker where
    pre: "pre = scheme @ www @ host @ ''.'' @ tld @ ''/'' @ marker"
    and parts:
      "scheme \<in> lang (Opt (Grp 1 (Cat (Str ''http'') (Cat (Opt (Str ''s'')) (Str ''://'')))))"
      "www \<in> lang (Opt (Grp 2 (Str ''www.'')))"
      "host \<in> lang (Grp 3 (Alt (Str ''youtube'') (Alt (Str ''youtu'') (Str ''youtube-nocookie''))))"
      "tld \<in> lang (Grp 4 (Alt (Str ''com'') (Str ''be'')))"
      "marker \<in> lang (Opt (Grp 5 (Alt (Str ''watch?v='') (Alt (Str ''embed/'') (Alt (Str ''v/'')
                        (Cat (Plus Dot) (Str ''?v='')))))))"
    unfolding video_prefix_def lang_scheme lang_www lang_host lang_tld lang_marker
    by blast
  have "''.'' \<in> lang (Str ''.'')" "''/'' \<in> lang (Str ''/'')"
    by simp_all
  with parts show "pre \<in> lang youtube_head"
    unfolding youtube_head_def pre by (intro lang_CatI)
qed


section \<open>The URL validator\<close>

lemma re_match_SomeD:
  "re_match r s = Some g \<Longrightarrow> \<exists>rest. (rest, g) \<in> set (rmatch r s (\<lambda>n. None))"
  by (auto simp: re_match_def split: list.splits)

lemma re_match_None: "re_match r s = None \<longleftrightarrow> rmatch r s (\<lambda>n. None) = []"
  by (auto simp: re_match_def split: list.splits)

lemma youtube_match:
  assumes "(rest, g') \<in> set (rmatch youtube_regex url g)"
  shows "\<exists>pre tok. url = pre @ tok @ rest \<and> video_prefix pre \<and> token tok \<and> g' 6 = Some tok"
proof -
  from assms obtain s1 g1 where
    h: "(s1, g1) \<in> set (rmatch youtube_head url g)"
    and t: "(rest, g') \<in> set (rmatch (Grp 6 (Times 11 (NoneOf ''&=%?''))) s1 g1)"
    unfolding youtube_regex_def rmatch_Cat by blast
  from rmatch_sound[OF h] obtain pre where pre: "pre \<in> lang youtube_head" "url = pre @ s1"
    by blast
  from rmatch_Grp[OF t] obtain tok where
    tok: "tok \<in> lang (Times 11 (NoneOf ''&=%?''))" "s1 = tok @ rest" "g' 6 = Some tok"
    by blast
  have "video_prefix pre" using pre(1) by (simp add: lang_youtube_head)
  moreover have "token tok" using tok(1) by (simp only: lang_token mem_Collect_eq)
  ultimately show ?thesis using pre(2) tok(2,3) by blast
qed

lemma youtube_match_complete:
  assumes "video_prefix pre" "token tok"
  shows "rmatch youtube_regex (pre @ tok @ rest) g \<noteq> []"
proof -
  have "pre \<in> lang youtube_head" using assms(1) by (simp add: lang_youtube_head)
  moreover have "tok \<in> lang (Grp 6 (Times 11 (NoneOf ''&=%?'')))"
    using assms(2) by (simp only: lang.simps(7) lang_token mem_Collect_eq)
  ultimately have "pre @ tok \<in> lang youtube_regex"
    unfolding youtube_regex_def by (rule lang_CatI)
  from rmatch_complete[OF this, of rest g] show ?thesis by auto
qed

lemma is_valid_iff:
  "is_valid_youtube_url url \<longleftrightarrow>
   (\<exists>pre tok rest. url = pre @ tok @ rest \<and> video_prefix pre \<and> token tok)"
proof
  assume "is_valid_youtube_url url"
  then obtain g where "re_match youtube_regex url = Some g"
    by (auto simp: is_valid_youtube_url_def)
  from re_match_SomeD[OF this] obtain rest where
    "(rest, g) \<in> set (rmatch youtube_regex url (\<lambda>n. None))" by blast
  from youtube_match[OF this]
  show "\<exists>pre tok rest. url = pre @ tok @ rest \<and> video_prefix pre \<and> token tok" by blast
next
  assume "\<exists>pre tok rest. url = pre @ tok @ rest \<and> video_prefix pre \<and> token tok"
  then obtain pre tok rest where "url = pre @ tok @ rest" "video_prefix pre" "token tok"
    by blast
  then have "rmatch youtube_regex url (\<lambda>n. None) \<noteq> []"
    using youtube_match_complete by simp
  then show "is_valid_youtube_url url"
    by (simp add: is_valid_youtube_url_def re_match_None)
qed

lemma extract_SomeD:
  assumes "extract_video_id url = Some tok"
  shows "\<exists>pre rest. url = pre @ tok @ rest \<and> video_prefix pre \<and> token tok"
proof -
  from assms obtain g where g: "re_match youtube_regex url = Some g" "g 6 = Some tok"
    by (auto simp: extract_video_id_def split: option.splits)
  from re_match_SomeD[OF g(1)] obtain rest where
    "(rest, g) \<in> set (rmatch youtube_regex url (\<lambda>n. None))" by blast
  from youtube_match[OF this] g(2) show ?thesis by auto
qed

lemma extract_None_iff: "extract_video_id url = None \<longleftrightarrow> \<not> is_valid_youtube_url url"
proof
  assume n: "extract_video_id url = None"
  show "\<not> is_valid_youtube_url url"
  proof
    assume "is_valid_youtube_url url"
    then obtain g where g: "re_match youtube_regex url = Some g"
      by (auto simp: is_valid_youtube_url_def)
    from re_match_SomeD[OF g] obtain rest where
      "(rest, g) \<in> set (rmatch youtube_regex url (\<lambda>n. None))" by blast
    from youtube_match[OF this] obtain tok where "g 6 = Some tok" by blast
    with g n show False by (simp add: extract_video_id_def)
  qed
next
  assume "\<not> is_valid_youtube_url url"
  then show "extract_video_id url = None"
    by (simp add: is_valid_youtube_url_def extract_video_id_def)
qed

text \<open>
  \<^bold>\<open>C10.\<close> The boolean validator and the extractor agree on every string:
  \<open>is_valid_youtube_url\<close> accepts a URL exactly when \<open>extract_video_id\<close> returns a token
  for it. A match always fills group 6, so \<open>match.group(6)\<close> is never \<open>None\<close>.
\<close>

theorem valid_iff_extractable:
  "is_valid_youtube_url url \<longleftrightarrow> extract_video_id url \<noteq> None"
  using extract_None_iff[of url] by auto

text \<open>
  \<^bold>\<open>C9.\<close> Validation looks at a prefix only: when a string is accepted, so is the string
  with any suffix appended to it.
\<close>

theorem valid_prefix_anchored:
  "is_valid_youtube_url url \<Longrightarrow> is_valid_youtube_url (url @ suffix)"
proof -
  assume "is_valid_youtube_url url"
  then obtain pre tok rest where "url = pre @ tok @ rest" "video_prefix pre" "token tok"
    unfolding is_valid_iff by blast
  then have "url @ suffix = pre @ tok @ (rest @ suffix) \<and> video_prefix pre \<and> token tok"
    by simp
  then show ?thesis unfolding is_valid_iff by blast
qed

theorem valid_prefix_anchored_witness:
  "is_valid_youtube_url ''https://www.youtube.com/watch?v=dQw4w9WgXcQ'' \<and>
   is_valid_youtube_url (''https://www.youtube.com/watch?v=dQw4w9WgXcQ'' @ ''&t=42s trailing text'')"
proof -
  have v: "is_valid_youtube_url ''https://www.youtube.com/watch?v=dQw4w9WgXcQ''"
    by (simp add: is_valid_youtube_url_def re_match_def youtube_regex_def youtube_head_def)
  from v valid_prefix_anchored[OF v] show ?thesis by blast
qed

text \<open>
  \<^bold>\<open>C4\<close> as first stated asks for a token of alphanumerics, \<open>-\<close> and \<open>_\<close>. The pattern asks
  less of it: the class \<^verbatim>\<open>[^&=%\?]\<close> lets any other character through, so the URL of a
  channel is accepted and its token is \<open>channel/UC_\<close>, with a slash in it.
\<close>

theorem extract_video_id_charset_counterexample:
  "is_valid_youtube_url ''https://www.youtube.com/channel/UC_x5XG1OV2P6uZZ5FSM9Ttw'' \<and>
   extract_video_id ''https://www.youtube.com/channel/UC_x5XG1OV2P6uZZ5FSM9Ttw'' = Some ''channel/UC_'' \<and>
   \<not> list_all video_id_char ''channel/UC_''"
  by (simp add: is_valid_youtube_url_def extract_video_id_def re_match_def youtube_regex_def
      youtube_head_def video_id_char_def)

text \<open>
  \<^bold>\<open>C4, amended.\<close> For every string the extractor accepts, the token is exactly 11
  characters, none of them \<open>&\<close>, \<open>=\<close>, \<open>%\<close> or \<open>?\<close>, and it stands in the URL right after a
  prefix of the recognised shape (scheme, \<open>www.\<close>, host, path marker); the extractor
  returns \<open>None\<close> exactly for the strings that do not start with such a prefix followed by
  11 such characters (no token, fewer than 11 characters, another host); and
  \<^verbatim>\<open>https://www.youtube.com/watch?v=dQw4w9WgXcQ\<close> yields \<open>dQw4w9WgXcQ\<close>.
\<close>

theorem extract_video_id_token:
  "(extract_video_id url = Some tok \<longrightarrow>
      (\<exists>pre rest. url = pre @ tok @ rest \<and> video_prefix pre) \<and>
      length tok = 11 \<and> set tok \<inter> set ''&=%?'' = {}) \<and>
   (extract_video_id url = None \<longleftrightarrow>
      \<not> (\<exists>pre t rest. url = pre @ t @ rest \<and> video_prefix pre \<and> token t)) \<and>
   extract_video_id ''https://www.youtube.com/watch?v=dQw4w9WgXcQ'' = Some ''dQw4w9WgXcQ''"
proof (intro conjI impI)
  assume "extract_video_id url = Some tok"
  from extract_SomeD[OF this] obtain pre rest where
    h: "url = pre @ tok @ rest" "video_prefix pre" "token tok" by blast
  from h(1,2) show "\<exists>pre rest. url = pre @ tok @ rest \<and> video_prefix pre" by blast
  from h(3) show "length tok = 11" by (simp add: token_def)
  from h(3) show "set tok \<inter> set ''&=%?'' = {}" by (simp add: token_def)
next
  show "extract_video_id url = None \<longleftrightarrow>
      \<not> (\<exists>pre t rest. url = pre @ t @ rest \<and> video_prefix pre \<and> token t)"
    unfolding extract_None_iff is_valid_iff by blast
next
  show "extract_video_id ''https://www.youtube.com/watch?v=dQw4w9WgXcQ'' = Some ''dQw4w9WgXcQ''"
    by (simp add: extract_video_id_def re_match_def youtube_regex_def youtube_head_def)
qed

theorem extract_video_id_token_witness:
  "extract_video_id ''https://youtu.be/dQw4w9WgXcQ?t=1'' = Some ''dQw4w9WgXcQ'' \<and>
   (\<exists>pre rest. ''https://youtu.be/dQw4w9WgXcQ?t=1'' = pre @ ''dQw4w9WgXcQ'' @ rest \<and> video_prefix pre) \<and>
   length ''dQw4w9WgXcQ'' = 11 \<and> set ''dQw4w9WgXcQ'' \<inter> set ''&=%?'' = {} \<and>
   extract_video_id ''https://vimeo.com/12345678901'' = None"
proof -
  have e: "extract_video_id ''https://youtu.be/dQw4w9WgXcQ?t=1'' = Some ''dQw4w9WgXcQ''"
    by (simp add: extract_video_id_def re_match_def youtube_regex_def youtube_head_def)
  have n: "extract_video_id ''https://vimeo.com/12345678901'' = None"
    by (simp add: extract_video_id_def re_match_def youtube_regex_def youtube_head_def)
  from e n extract_video_id_token[of "''https://youtu.be/dQw4w9WgXcQ?t=1''" "''dQw4w9WgXcQ''"]
  show ?thesis by blast
qed

section \<open>The catalog builder\<close>

subsection \<open>\<open>str\<close> and \<open>int\<close> are inverse on the labels\<close>

lemma digit_val_nth: "d < 10 \<Longrightarrow> digit_val (''0123456789'' ! d) = d"
proof -
  assume "d < 10"
  then have "d = 0 \<or> d = 1 \<or> d = 2 \<or> d = 3 \<or> d = 4 \<or> d = 5 \<or> d = 6 \<or> d = 7 \<or> d = 8 \<or> d = 9"
    by arith
  then show ?thesis by (elim disjE) (simp_all add: digit_val_def)
qed

lemma is_digit_nth: "d < 10 \<Longrightarrow> is_digit (''0123456789'' ! d)"
proof -
  assume "d < 10"
  then have "d = 0 \<or> d = 1 \<or> d = 2 \<or> d = 3 \<or> d = 4 \<or> d = 5 \<or> d = 6 \<or> d = 7 \<or> d = 8 \<or> d = 9"
    by arith
  then show ?thesis by (elim disjE) (simp_all add: is_digit_def)
qed

lemma digits_not_Nil: "digits n \<noteq> []"
  by (subst digits.simps) simp

lemma digits_all: "list_all is_digit (digits n)"
  by (induction n rule: digits.induct) (subst digits.simps, simp add: is_digit_nth)

lemma digits_value: "foldl (\<lambda>a c. 10 * a + digit_val c) 0 (digits n) = n"
  by (induction n rule: digits.induct) (subst digits.simps, simp add: digit_val_nth)

lemma digits_chars: "set (digits n) \<subseteq> set ''0123456789''"
  using digits_all[of n] by (auto simp: list_all_iff is_digit_def)

lemma py_int_py_str: "py_int (py_str h) = Inr h"
proof (cases "h < 0")
  case True
  then show ?thesis
    by (simp add: py_int_def py_str_def digits_not_Nil digits_all digits_value Let_def)
next
  case False
  obtain c t where ct: "digits (nat h) = c # t"
    using digits_not_Nil[of "nat h"] by (cases "digits (nat h)") auto
  have "c \<in> set ''0123456789''" using digits_chars[of "nat h"] ct by auto
  then have c: "c \<noteq> CHR ''-''" "c \<noteq> CHR ''+''" by auto
  have "list_all is_digit (c # t)" "foldl (\<lambda>a c. 10 * a + digit_val c) 0 (c # t) = nat h"
    using digits_all[of "nat h"] digits_value[of "nat h"] ct by simp_all
  with False c ct show ?thesis
    by (simp add: py_int_def py_str_def Let_def)
qed

text \<open>The sort key of an entry is the height it was made from.\<close>

lemma replace_id: "old \<notin> set s \<Longrightarrow> replace old new s = s"
  by (induction s) (auto simp: replace_def)

lemma replace_append: "replace old new (s @ t) = replace old new s @ replace old new t"
  by (simp add: replace_def)

lemma py_str_no_p: "CHR ''p'' \<notin> set (py_str h)"
  using digits_chars[of "nat h"] digits_chars[of "nat (- h)"] by (auto simp: py_str_def)

lemma replace_single: "replace old new [old] = new"
  by (simp add: replace_def)

lemma quality_key_to_entry: "quality_key (to_entry f) = Inr (height_of f)"
  by (simp add: quality_key_def to_entry_def label_def replace_append replace_id py_str_no_p
      py_int_py_str replace_single)

lemma sort_keys_to_entry: "sort_keys quality_key (map to_entry rs) = Inr (map height_of rs)"
  by (induction rs) (simp_all add: quality_key_to_entry)

lemma insort_key_map:
  "insort_key k (h x) (map h xs) = map h (insort_key (\<lambda>y. k (h y)) x xs)"
  by (induction xs) simp_all

lemma sort_key_map: "sort_key k (map h xs) = map h (sort_key (\<lambda>y. k (h y)) xs)"
  by (induction xs) (simp_all add: insort_key_map)

lemma sort_reverse_to_entry:
  "sort_reverse quality_key (map to_entry rs) =
   Inr (map to_entry (sort_key (\<lambda>f. - height_of f) rs))"
proof -
  have "zip (map height_of rs) (map to_entry rs) = map (\<lambda>f. (height_of f, to_entry f)) rs"
    by (induction rs) simp_all
  then show ?thesis
    by (simp add: sort_reverse_def sort_keys_to_entry sort_key_map comp_def)
qed

subsection \<open>The loop, the sort and the slice\<close>

lemma visit_eq:
  "visit fmt fr =
     (if video_format fmt \<and> label fmt \<notin> seen_qualities fr
      then fr\<lparr>formats := formats fr @ [to_entry fmt],
              seen_qualities := insert (label fmt) (seen_qualities fr)\<rparr>
      else fr)"
  by (simp add: visit_def video_format_def label_def to_entry_def height_of_def get_or_def
      Let_def split: option.splits)

lemma loop_info: "info (foldl (\<lambda>f fmt. visit fmt f) fr fmts) = info fr"
  by (induction fmts arbitrary: fr) (simp_all add: visit_eq)

lemma loop_formats:
  "formats (foldl (\<lambda>f fmt. visit fmt f) fr fmts) =
   formats fr @ map to_entry (first_per_label
     (filter (\<lambda>f. video_format f \<and> label f \<notin> seen_qualities fr) fmts))"
proof (induction fmts arbitrary: fr)
  case Nil
  then show ?case by simp
next
  case (Cons a fmts)
  have step:
    "formats (foldl (\<lambda>f fmt. visit fmt f) fr (a # fmts)) =
     formats (visit a fr) @ map to_entry (first_per_label
       (filter (\<lambda>f. video_format f \<and> label f \<notin> seen_qualities (visit a fr)) fmts))"
    using Cons.IH[of "visit a fr"] by simp
  show ?case
  proof (cases "video_format a \<and> label a \<notin> seen_qualities fr")
    case True
    have eq:
      "filter (\<lambda>f. video_format f \<and> label f \<noteq> label a \<and> label f \<notin> seen_qualities fr) fmts =
       filter (\<lambda>f. video_format f \<and> label f \<notin> seen_qualities fr \<and> label f \<noteq> label a) fmts"
      by (rule filter_cong) auto
    from True have v: "visit a fr = fr\<lparr>formats := formats fr @ [to_entry a],
              seen_qualities := insert (label a) (seen_qualities fr)\<rparr>"
      by (simp add: visit_eq)
    from True show ?thesis unfolding step v by (simp add: eq)
  next
    case False
    then have v: "visit a fr = fr" by (auto simp: visit_eq)
    from False show ?thesis unfolding step v by auto
  qed
qed

lemma get_formats_eq:
  "get_formats fr =
   Inr (fr\<lparr>formats := map to_entry (ranked (get_or (info_formats (info fr)) [])) @ [audio_entry],
           seen_qualities := seen_qualities
             (foldl (\<lambda>f fmt. visit fmt f) (fr\<lparr>formats := [], seen_qualities := {}\<rparr>)
                (get_or (info_formats (info fr)) []))\<rparr>)"
proof -
  let ?fr1 = "fr\<lparr>formats := [], seen_qualities := {}\<rparr>"
  let ?fmts = "get_or (info_formats (info fr)) []"
  let ?fr2 = "foldl (\<lambda>f fmt. visit fmt f) ?fr1 ?fmts"
  have loop: "(case info_formats (info ?fr1) of None \<Rightarrow> ?fr1
               | Some fmts \<Rightarrow> foldl (\<lambda>f fmt. visit fmt f) ?fr1 fmts) = ?fr2"
    by (simp add: get_or_def split: option.splits)
  have f2: "formats ?fr2 = map to_entry (first_per_label (filter video_format ?fmts))"
    by (simp add: loop_formats)
  have i2: "info ?fr2 = info fr"
    by (simp add: loop_info)
  have "get_formats fr =
        Inr (?fr2\<lparr>formats := map to_entry (ranked ?fmts) @ [audio_entry]\<rparr>)"
    unfolding get_formats_def Let_def loop f2 sort_reverse_to_entry ranked_def by simp
  moreover have "?fr2\<lparr>formats := map to_entry (ranked ?fmts) @ [audio_entry]\<rparr> =
      fr\<lparr>formats := map to_entry (ranked ?fmts) @ [audio_entry],
         seen_qualities := seen_qualities ?fr2\<rparr>"
    using i2 by (intro frame.equality) simp_all
  ultimately show ?thesis by simp
qed

lemma build_catalog_eq:
  "build_catalog fmts =
   Inr (take 10 (map to_entry (ranked (get_or fmts [])) @ [audio_entry]))"
  by (simp add: build_catalog_def get_formats_eq make_video_info_def)

subsection \<open>The ranked formats\<close>

lemma set_first_per_label: "set (first_per_label xs) \<subseteq> set xs"
proof (induction xs rule: first_per_label.induct)
  case 1
  then show ?case by simp
next
  case (2 f rest)
  then show ?case by auto
qed

lemma distinct_first_per_label: "distinct (map label (first_per_label xs))"
proof (induction xs rule: first_per_label.induct)
  case 1
  then show ?case by simp
next
  case (2 f rest)
  have "set (first_per_label (filter (\<lambda>g. label g \<noteq> label f) rest))
        \<subseteq> {g. label g \<noteq> label f}"
    using set_first_per_label[of "filter (\<lambda>g. label g \<noteq> label f) rest"] by auto
  then have "label f \<notin> label ` set (first_per_label (filter (\<lambda>g. label g \<noteq> label f) rest))"
    by auto
  with 2 show ?case by simp
qed

lemma find_filter: "List.find P (filter Q xs) = List.find (\<lambda>x. Q x \<and> P x) xs"
  by (induction xs) auto

lemma first_per_label_find:
  "f \<in> set (first_per_label xs) \<Longrightarrow> List.find (\<lambda>g. label g = label f) xs = Some f"
proof (induction xs rule: first_per_label.induct)
  case 1
  then show ?case by simp
next
  case (2 a rest)
  show ?case
  proof (cases "f = a")
    case True
    then show ?thesis by simp
  next
    case False
    with "2.prems" have m: "f \<in> set (first_per_label (filter (\<lambda>g. label g \<noteq> label a) rest))"
      by simp
    then have ne: "label f \<noteq> label a"
      using set_first_per_label[of "filter (\<lambda>g. label g \<noteq> label a) rest"] by auto
    have "(\<lambda>x. label x \<noteq> label a \<and> label x = label f) = (\<lambda>g. label g = label f)"
      using ne by auto
    with "2.IH"[OF m] have "List.find (\<lambda>g. label g = label f) rest = Some f"
      by (simp add: find_filter)
    with ne show ?thesis by auto
  qed
qed

lemma set_ranked: "set (ranked fmts) = set (first_per_label (filter video_format fmts))"
  by (simp add: ranked_def)

lemma ranked_first:
  "f \<in> set (ranked fmts) \<Longrightarrow>
   List.find (\<lambda>g. video_format g \<and> label g = label f) fmts = Some f"
  using first_per_label_find[of f "filter video_format fmts"]
  by (simp add: set_ranked find_filter)

lemma ranked_video: "f \<in> set (ranked fmts) \<Longrightarrow> f \<in> set fmts \<and> video_format f"
  using set_first_per_label[of "filter video_format fmts"] by (auto simp: set_ranked)

lemma distinct_ranked: "distinct (map label (ranked fmts))"
proof -
  have "distinct (map label (first_per_label (filter video_format fmts)))"
    by (rule distinct_first_per_label)
  then show ?thesis
    by (simp add: distinct_map ranked_def)
qed

lemma sorted_ranked: "sorted_wrt (\<lambda>f g. height_of g \<le> height_of f) (ranked fmts)"
proof -
  have "sorted (map (\<lambda>f. - height_of f) (ranked fmts))"
    unfolding ranked_def by (rule sorted_sort_key)
  then show ?thesis by (simp add: sorted_map)
qed

lemma stable_ranked:
  "filter (\<lambda>f. height_of f = h) (ranked fmts) =
   filter (\<lambda>f. height_of f = h) (first_per_label (filter video_format fmts))"
  using sort_key_stable[of "\<lambda>f. - height_of f" "- h" "first_per_label (filter video_format fmts)"]
  by (simp add: ranked_def)

lemma label_not_audio: "label f \<noteq> ''Audio Only (MP3)''"
proof
  assume "label f = ''Audio Only (MP3)''"
  then have "last (label f) = last ''Audio Only (MP3)''" by simp
  then show False by (simp add: label_def)
qed

lemma quality_to_entry: "quality (to_entry f) = label f"
  by (simp add: to_entry_def)

lemma distinct_catalog:
  "distinct (map quality (take 10 (map to_entry (ranked fmts) @ [audio_entry])))"
proof -
  have eq: "map quality (map to_entry (ranked fmts) @ [audio_entry]) =
        map label (ranked fmts) @ [''Audio Only (MP3)'']"
    by (simp add: quality_to_entry audio_entry_def comp_def)
  have d: "distinct (map label (ranked fmts) @ [''Audio Only (MP3)''])"
    using distinct_ranked[of fmts] by (auto simp: label_not_audio label_not_audio[symmetric])
  have "distinct (map quality (map to_entry (ranked fmts) @ [audio_entry]))"
    unfolding eq by (rule d)
  then show ?thesis
    by (simp only: take_map[symmetric] distinct_take)
qed


section \<open>Properties of the catalog\<close>

lemma py_str_inj: "py_str a = py_str b \<longleftrightarrow> a = b"
proof
  assume "py_str a = py_str b"
  then have "py_int (py_str a) = py_int (py_str b)" by simp
  then show "a = b" by (simp add: py_int_py_str)
qed simp

lemma label_eq_iff: "label f = label g \<longleftrightarrow> height_of f = height_of g"
  by (simp add: label_def py_str_inj)

lemma catalog_with_audio:
  "length (ranked fmts) < 10 \<Longrightarrow>
   build_catalog (Some fmts) = Inr (map to_entry (ranked fmts) @ [audio_entry])"
  by (simp add: build_catalog_eq get_or_def)

lemma audio_entry_not_video: "audio_entry \<notin> set (map to_entry xs)"
  by (auto simp: to_entry_def audio_entry_def label_not_audio[symmetric])

lemma catalog_without_audio:
  "10 \<le> length (ranked fmts) \<Longrightarrow>
   build_catalog (Some fmts) = Inr (map to_entry (take 10 (ranked fmts))) \<and>
   audio_entry \<notin> set (map to_entry (take 10 (ranked fmts)))"
  by (simp add: build_catalog_eq get_or_def take_map audio_entry_not_video del: set_map)

lemma ranked_ten_heights:
  "ranked ten_heights =
     [video ''571'' 4320, video ''313'' 2160, video ''271'' 1440, video ''137'' 1080,
      video ''136'' 720, video ''135'' 480, video ''134'' 360, video ''133'' 240,
      video ''160'' 144, video ''597'' 72]"
  by (simp add: ranked_def ten_heights_def video_def video_format_def height_of_def get_or_def
      label_eq_iff)

lemma labels_ten_heights:
  "map label [video ''571'' 4320, video ''313'' 2160, video ''271'' 1440, video ''137'' 1080,
      video ''136'' 720, video ''135'' 480, video ''134'' 360, video ''133'' 240,
      video ''160'' 144, video ''597'' 72] =
   [''4320p'', ''2160p'', ''1440p'', ''1080p'', ''720p'', ''480p'', ''360p'', ''240p'',
           ''144p'', ''72p'']"
  by (simp add: label_def video_def height_of_def get_or_def py_str_def digits.simps)

text \<open>
  \<^bold>\<open>C1.\<close> The catalog is meant to hold at most ten video entries and, after them, the
  entry \<open>Audio Only (MP3)\<close>. Line 89 appends that entry and line 103 then slices the whole
  list to ten elements, so with ten distinct heights the slice cuts the audio entry off
  (\<open>catalog_without_audio\<close> above, for every such input). On \<open>ten_heights\<close> the handler
  returns the ten video entries and no audio entry.
\<close>

theorem catalog_ten_heights:
  "(case build_catalog (Some ten_heights) of
      Inl e \<Rightarrow> False
    | Inr cat \<Rightarrow>
        map quality cat =
          [''4320p'', ''2160p'', ''1440p'', ''1080p'', ''720p'', ''480p'', ''360p'', ''240p'',
           ''144p'', ''72p''] \<and>
        length cat = 10 \<and> audio_entry \<notin> set cat)"
proof -
  let ?top = "[video ''571'' 4320, video ''313'' 2160, video ''271'' 1440, video ''137'' 1080,
      video ''136'' 720, video ''135'' 480, video ''134'' 360, video ''133'' 240,
      video ''160'' 144, video ''597'' 72]"
  have c: "build_catalog (Some ten_heights) = Inr (map to_entry ?top)"
    by (simp add: build_catalog_eq get_or_def ranked_ten_heights)
  have q: "map quality (map to_entry ?top) = map label ?top"
    by (simp add: to_entry_def)
  have a: "audio_entry \<notin> set (map to_entry ?top)"
    by (auto simp: to_entry_def audio_entry_def label_not_audio[symmetric])
  have l: "length (map to_entry ?top) = 10"
    by simp
  show ?thesis
    unfolding c sum.case q labels_ten_heights using a l by (intro conjI refl)
qed

text \<open>
  \<^bold>\<open>C6.\<close> The builder never fails and leaves its input as it was: \<open>get_formats\<close> returns
  a frame, never an exception (the \<open>int\<close> of line 86 always parses, since it reads back a
  label that \<open>str\<close> wrote), and the \<open>info\<close> of that frame is the \<open>info\<close> it was given. On
  an empty list of formats, and on an \<open>info\<close> without \<open>formats\<close>, the catalog is the audio
  entry alone.
\<close>

theorem catalog_total:
  "(\<exists>fr'. get_formats fr = Inr fr' \<and> info fr' = info fr) \<and>
   (\<exists>cat. build_catalog fmts = Inr cat) \<and>
   build_catalog (Some []) = Inr [audio_entry] \<and>
   build_catalog None = Inr [audio_entry]"
  by (simp add: get_formats_eq build_catalog_eq get_or_def ranked_def)

text \<open>
  Line 73 on two formats at its edge: a height of zero is falsy, so the format is not
  listed; a format without \<open>vcodec\<close> is not \<open>none\<close>, so it is.
\<close>

lemma zero_height_not_listed: "build_catalog (Some [video ''18'' 0]) = Inr [audio_entry]"
  by (simp add: build_catalog_eq get_or_def ranked_def video_format_def video_def)

lemma absent_vcodec_listed:
  "build_catalog (Some [(video ''18'' 480)\<lparr>vcodec := None\<rparr>]) =
     Inr [to_entry ((video ''18'' 480)\<lparr>vcodec := None\<rparr>), audio_entry]"
  by (simp add: build_catalog_eq get_or_def ranked_def video_format_def video_def)

text \<open>
  \<^bold>\<open>C5.\<close> The catalog is the first ten of: the video formats, one for each label
  \<^verbatim>\<open>"{height}p"\<close>, sorted by height from the tallest down, and then the audio entry. A
  format counts as video when its \<open>vcodec\<close> is not \<open>none\<close> and its height is truthy
  (present and not zero). Every format kept is the first video format of its label in the
  input, so a later duplicate is dropped; no two entries of the catalog share a label;
  the heights descend; the sort is stable (formats of one height keep their order); and
  the heights 720, 480, 720 give the first 720p entry, the 480p entry and the audio entry.
\<close>

theorem catalog_first_per_label:
  "build_catalog (Some fmts) = Inr (take 10 (map to_entry (ranked fmts) @ [audio_entry])) \<and>
   (\<forall>f \<in> set (ranked fmts).
      List.find (\<lambda>g. video_format g \<and> label g = label f) fmts = Some f) \<and>
   distinct (map quality (take 10 (map to_entry (ranked fmts) @ [audio_entry]))) \<and>
   sorted_wrt (\<lambda>f g. height_of g \<le> height_of f) (ranked fmts) \<and>
   (\<forall>h. filter (\<lambda>f. height_of f = h) (ranked fmts) =
        filter (\<lambda>f. height_of f = h) (first_per_label (filter video_format fmts))) \<and>
   build_catalog (Some [video ''22'' 720, video ''18'' 480, video ''136'' 720]) =
     Inr [\<lparr>entry_format_id = ''22'', quality = ''720p'', entry_ext = ''mp4'',
           entry_filesize = None, entry_fps = Some 30\<rparr>,
          \<lparr>entry_format_id = ''18'', quality = ''480p'', entry_ext = ''mp4'',
           entry_filesize = None, entry_fps = Some 30\<rparr>,
          audio_entry]"
proof (intro conjI ballI allI)
  show "build_catalog (Some fmts) = Inr (take 10 (map to_entry (ranked fmts) @ [audio_entry]))"
    by (simp add: build_catalog_eq get_or_def)
next
  fix f assume "f \<in> set (ranked fmts)"
  then show "List.find (\<lambda>g. video_format g \<and> label g = label f) fmts = Some f"
    by (rule ranked_first)
next
  show "distinct (map quality (take 10 (map to_entry (ranked fmts) @ [audio_entry])))"
    by (rule distinct_catalog)
next
  show "sorted_wrt (\<lambda>f g. height_of g \<le> height_of f) (ranked fmts)"
    by (rule sorted_ranked)
next
  fix h
  show "filter (\<lambda>f. height_of f = h) (ranked fmts) =
        filter (\<lambda>f. height_of f = h) (first_per_label (filter video_format fmts))"
    by (rule stable_ranked)
next
  show "build_catalog (Some [video ''22'' 720, video ''18'' 480, video ''136'' 720]) =
     Inr [\<lparr>entry_format_id = ''22'', quality = ''720p'', entry_ext = ''mp4'',
           entry_filesize = None, entry_fps = Some 30\<rparr>,
          \<lparr>entry_format_id = ''18'', quality = ''480p'', entry_ext = ''mp4'',
           entry_filesize = None, entry_fps = Some 30\<rparr>,
          audio_entry]"
    by code_simp
qed

theorem catalog_first_per_label_witness:
  "ranked [video ''22'' 720, video ''18'' 480, video ''136'' 720] =
     [video ''22'' 720, video ''18'' 480] \<and>
   List.find (\<lambda>g. video_format g \<and> label g = label (video ''22'' 720))
     [video ''22'' 720, video ''18'' 480, video ''136'' 720] = Some (video ''22'' 720) \<and>
   List.find (\<lambda>g. video_format g \<and> label g = label (video ''18'' 480))
     [video ''22'' 720, video ''18'' 480, video ''136'' 720] = Some (video ''18'' 480) \<and>
   build_catalog (Some [video ''22'' 720, video ''18'' 480, video ''136'' 720]) =
     Inr [to_entry (video ''22'' 720), to_entry (video ''18'' 480), audio_entry]"
proof -
  have r: "ranked [video ''22'' 720, video ''18'' 480, video ''136'' 720] =
     [video ''22'' 720, video ''18'' 480]"
    by code_simp
  from catalog_first_per_label[of "[video ''22'' 720, video ''18'' 480, video ''136'' 720]"]
  show ?thesis unfolding r by simp
qed

section \<open>The two handlers\<close>

lemma not_valid_Nil: "\<not> is_valid_youtube_url []"
  by (simp add: is_valid_youtube_url_def re_match_def youtube_regex_def youtube_head_def)

lemma valid_watch_url: "is_valid_youtube_url ''https://www.youtube.com/watch?v=dQw4w9WgXcQ''"
  by (simp add: is_valid_youtube_url_def re_match_def youtube_regex_def youtube_head_def)

lemma request_url_audio_request:
  "request_url audio_request = ''https://www.youtube.com/watch?v=dQw4w9WgXcQ''"
  by (simp add: request_url_def audio_request_def get_or_def strip_def isspace_def)

lemma mkdtemp_empty_world:
  "mkdtemp empty_world =
     (''/tmp/tmp0'', empty_world\<lparr>fs := (fs empty_world)(''/tmp/tmp0'' \<mapsto> []), tmp_seq := 1\<rparr>)"
  by (simp add: mkdtemp_def empty_world_def digits.simps Let_def)

text \<open>The handlers, one path at a time.\<close>

lemma get_video_info_invalid:
  "\<not> is_valid_youtube_url (request_url frm) \<Longrightarrow>
   get_video_info eng frm w =
     (Json_error (if request_url frm = [] then ''Please enter a YouTube URL''
                  else ''Please enter a valid YouTube URL'') 400, w)"
  by (simp add: get_video_info_def Let_def)

lemma get_video_info_valid_calls:
  "is_valid_youtube_url (request_url frm) \<Longrightarrow>
   calls (snd (get_video_info eng frm w)) = calls w @ [Extract_info info_opts (request_url frm)]"
  using not_valid_Nil
  by (auto simp: get_video_info_def Let_def split: sum.splits)

text \<open>The catalog in the answer of \<open>get_video_info\<close> is the one \<open>build_catalog\<close> builds.\<close>

lemma get_video_info_catalog:
  assumes "is_valid_youtube_url (request_url frm)"
    and "extract_info eng info_opts (request_url frm) = Inr i"
  shows "\<exists>vi. fst (get_video_info eng frm w) = Json vi \<and>
              build_catalog (info_formats i) = Inr (catalog vi)"
proof -
  have "request_url frm \<noteq> []" using assms(1) not_valid_Nil by auto
  with assms show ?thesis
    by (simp add: get_video_info_def Let_def get_formats_eq build_catalog_eq
        make_video_info_def)
qed

lemma download_video_invalid:
  "\<not> is_valid_youtube_url (request_url frm) \<Longrightarrow>
   download_video eng frm w = (Flash_redirect ''Invalid YouTube URL'' ''error'', w)"
  by (simp add: download_video_def Let_def)

lemma download_video_valid:
  assumes "is_valid_youtube_url (request_url frm)"
    and "mkdtemp w = (temp_dir, w1)"
  shows "download_video eng frm w =
     (let ydl_opts = download_opts (chosen_format frm) temp_dir;
          w2 = w1\<lparr>calls := calls w1 @ [Extract_info ydl_opts (request_url frm)]\<rparr>
      in case extract_info eng ydl_opts (request_url frm) of
           Inl e \<Rightarrow> (download_failure e, w2)
         | Inr i \<Rightarrow>
             (let w3 = w2\<lparr>calls := calls w2 @ [Download ydl_opts (request_url frm)],
                          fs := (fs w2)(temp_dir \<mapsto> fst (download eng ydl_opts (request_url frm)))\<rparr>
              in case snd (download eng ydl_opts (request_url frm)) of
                   Some e \<Rightarrow> (download_failure e, w3)
                 | None \<Rightarrow>
                     (case fst (download eng ydl_opts (request_url frm)) of
                        [] \<Rightarrow> (Flash_redirect ''Download failed. No file was created.'' ''error'', w3)
                      | (f, Regular_file) # others \<Rightarrow> (Send_file (path_join temp_dir f) f, w3)
                      | (f, Directory) # others \<Rightarrow> (download_failure OSError, w3))))"
proof -
  have "request_url frm \<noteq> []" using assms(1) not_valid_Nil by auto
  with assms show ?thesis
    by (simp add: download_video_def listdir_def send_file_def Let_def
        split: prod.splits sum.splits option.splits list.splits node.splits)
qed

lemma request_url_is_stripped:
  "request_url [''url'' \<mapsto> '' https://youtu.be/dQw4w9WgXcQ''] = ''https://youtu.be/dQw4w9WgXcQ''"
  by (simp add: request_url_def get_or_def strip_def isspace_def)

lemma valid_short_url: "is_valid_youtube_url ''https://youtu.be/dQw4w9WgXcQ''"
  by (simp add: is_valid_youtube_url_def re_match_def youtube_regex_def youtube_head_def)

text \<open>
  \<^bold>\<open>C7\<close> as first stated speaks of every input string that fails validation. The
  handlers strip the \<open>url\<close> field (lines 47 and 119) before they validate it (lines 52
  and 122): a URL with a blank in front of it fails \<open>is_valid_youtube_url\<close>, and both
  handlers still call the library, with the stripped URL.
\<close>

theorem blank_before_url_counterexample:
  "\<not> is_valid_youtube_url '' https://youtu.be/dQw4w9WgXcQ'' \<and>
   calls (snd (get_video_info good_engine [''url'' \<mapsto> '' https://youtu.be/dQw4w9WgXcQ'']
            empty_world)) =
     [Extract_info info_opts ''https://youtu.be/dQw4w9WgXcQ''] \<and>
   calls (snd (download_video good_engine [''url'' \<mapsto> '' https://youtu.be/dQw4w9WgXcQ'']
            empty_world)) =
     [Extract_info (download_opts ''best'' ''/tmp/tmp0'') ''https://youtu.be/dQw4w9WgXcQ'',
      Download (download_opts ''best'' ''/tmp/tmp0'') ''https://youtu.be/dQw4w9WgXcQ'']"
proof -
  let ?frm = "[''url'' \<mapsto> '' https://youtu.be/dQw4w9WgXcQ'']"
  have n: "\<not> is_valid_youtube_url '' https://youtu.be/dQw4w9WgXcQ''"
    by (simp add: is_valid_youtube_url_def re_match_def youtube_regex_def youtube_head_def)
  have v: "is_valid_youtube_url (request_url ?frm)"
    by (simp add: request_url_is_stripped valid_short_url)
  have g: "calls (snd (get_video_info good_engine ?frm empty_world)) =
           [Extract_info info_opts ''https://youtu.be/dQw4w9WgXcQ'']"
    by (simp add: get_video_info_valid_calls[OF v] request_url_is_stripped empty_world_def)
  have c: "chosen_format ?frm = ''best''"
    by (simp add: chosen_format_def get_or_def)
  have d: "calls (snd (download_video good_engine ?frm empty_world)) =
     [Extract_info (download_opts ''best'' ''/tmp/tmp0'') ''https://youtu.be/dQw4w9WgXcQ'',
      Download (download_opts ''best'' ''/tmp/tmp0'') ''https://youtu.be/dQw4w9WgXcQ'']"
    unfolding download_video_valid[OF v mkdtemp_empty_world] c request_url_is_stripped
    by (simp add: Let_def good_engine_def empty_world_def)
  from n g d show ?thesis by simp
qed

text \<open>
  \<^bold>\<open>C7, amended.\<close> Both handlers validate the URL of the request, which is the \<open>url\<close>
  field of the form stripped of surrounding whitespace, before anything else. When the
  stripped URL fails validation (the empty one does), \<open>get_video_info\<close> answers with an
  error of status 400 and \<open>download_video\<close> flashes \<open>Invalid YouTube URL\<close>; the world is
  returned as it was, so no call to the library is made (\<open>calls\<close> is unchanged) and no
  directory is created. For a valid URL the call is recorded
  (\<open>get_video_info_valid_calls\<close>).
\<close>

theorem invalid_url_never_reaches_engine:
  assumes "\<not> is_valid_youtube_url (request_url frm)"
  shows "get_video_info eng frm w =
           (Json_error (if request_url frm = [] then ''Please enter a YouTube URL''
                        else ''Please enter a valid YouTube URL'') 400, w) \<and>
         download_video eng frm w = (Flash_redirect ''Invalid YouTube URL'' ''error'', w) \<and>
         calls (snd (get_video_info eng frm w)) = calls w \<and>
         calls (snd (download_video eng frm w)) = calls w"
  using assms by (simp add: get_video_info_invalid download_video_invalid)

theorem invalid_url_never_reaches_engine_witness:
  "\<not> is_valid_youtube_url (request_url [''url'' \<mapsto> ''not a url'']) \<and>
   get_video_info good_engine [''url'' \<mapsto> ''not a url''] empty_world =
     (Json_error ''Please enter a valid YouTube URL'' 400, empty_world) \<and>
   download_video good_engine [''url'' \<mapsto> ''not a url''] empty_world =
     (Flash_redirect ''Invalid YouTube URL'' ''error'', empty_world) \<and>
   calls (snd (get_video_info good_engine [''url'' \<mapsto> ''not a url''] empty_world)) = []"
proof -
  have u: "request_url [''url'' \<mapsto> ''not a url''] = ''not a url''"
    by (simp add: request_url_def get_or_def strip_def isspace_def)
  have n: "\<not> is_valid_youtube_url (request_url [''url'' \<mapsto> ''not a url''])"
    unfolding u
    by (simp add: is_valid_youtube_url_def re_match_def youtube_regex_def youtube_head_def)
  from invalid_url_never_reaches_engine[OF n, of good_engine empty_world] n
  show ?thesis by (simp add: u empty_world_def)
qed

text \<open>
  When the library leaves a directory as the first entry, \<open>send_file\<close> raises inside the
  \<open>try\<close> and the handler answers with the flash of an unexpected error.
\<close>

lemma directory_first_is_unexpected_error:
  "fst (download_video nesting_engine audio_request empty_world) =
     Flash_redirect ''An unexpected error occurred during download.'' ''error''"
proof -
  have v: "is_valid_youtube_url (request_url audio_request)"
    by (simp add: request_url_audio_request valid_watch_url)
  show ?thesis
    unfolding download_video_valid[OF v mkdtemp_empty_world]
    by (simp add: Let_def nesting_engine_def download_failure_def)
qed

text \<open>
  \<^bold>\<open>C8.\<close> When the URL is valid, \<open>extract_info\<close> returns and \<open>download\<close> returns without
  an exception, the handler lists the directory once. An empty listing gives the flash
  \<open>Download failed. No file was created.\<close>, which is not the flash of a \<open>DownloadError\<close>.
  Otherwise the first entry of the listing is taken as the artifact, whatever follows it:
  when it is a file, as the library leaves it, it is sent from the directory under its
  own name; were it a directory, \<open>send_file\<close> would raise at line 166 and the answer would
  be the flash of an unexpected error.
\<close>

theorem artifact_is_first_listed:
  assumes "is_valid_youtube_url (request_url frm)"
    and "mkdtemp w = (temp_dir, w1)"
    and "extract_info eng (download_opts (chosen_format frm) temp_dir) (request_url frm) = Inr i"
    and "download eng (download_opts (chosen_format frm) temp_dir) (request_url frm) =
           (listing, None)"
  shows "fst (download_video eng frm w) =
           (case listing of
              [] \<Rightarrow> Flash_redirect ''Download failed. No file was created.'' ''error''
            | (f, Regular_file) # others \<Rightarrow> Send_file (path_join temp_dir f) f
            | (f, Directory) # others \<Rightarrow>
                Flash_redirect ''An unexpected error occurred during download.'' ''error'') \<and>
         download_failure DownloadError \<noteq>
           Flash_redirect ''Download failed. No file was created.'' ''error''"
  using assms(3,4)
  by (simp add: download_video_valid[OF assms(1,2)] Let_def download_failure_def
      split: list.splits prod.splits node.splits)

theorem artifact_is_first_listed_witness:
  "is_valid_youtube_url (request_url audio_request) \<and>
   mkdtemp empty_world =
     (''/tmp/tmp0'', empty_world\<lparr>fs := (fs empty_world)(''/tmp/tmp0'' \<mapsto> []), tmp_seq := 1\<rparr>) \<and>
   download good_engine (download_opts (chosen_format audio_request) ''/tmp/tmp0'')
     (request_url audio_request) = ([(''Some video.mp3'', Regular_file)], None) \<and>
   fst (download_video good_engine audio_request empty_world) =
     Send_file ''/tmp/tmp0/Some video.mp3'' ''Some video.mp3''"
proof -
  have v: "is_valid_youtube_url (request_url audio_request)"
    by (simp add: request_url_audio_request valid_watch_url)
  have e: "extract_info good_engine (download_opts (chosen_format audio_request) ''/tmp/tmp0'')
             (request_url audio_request) = Inr some_info"
    by (simp add: good_engine_def)
  have d: "download good_engine (download_opts (chosen_format audio_request) ''/tmp/tmp0'')
             (request_url audio_request) = ([(''Some video.mp3'', Regular_file)], None)"
    by (simp add: good_engine_def)
  from artifact_is_first_listed[OF v mkdtemp_empty_world e d] v mkdtemp_empty_world d
  show ?thesis by (simp add: path_join_def)
qed

text \<open>
  \<^bold>\<open>C2\<close> as first stated has the directory of a request removed on every exit path.
  \<open>download_video\<close> creates it with \<open>tempfile.mkdtemp()\<close> and nothing in \<open>app.py\<close> ever
  removes it: when the download raises after writing a partial file, the handler flashes
  the failure and the directory is still there, with the partial file.
\<close>

theorem workspace_left_behind_counterexample:
  "fs empty_world ''/tmp/tmp0'' = None \<and>
   fst (download_video failing_engine audio_request empty_world) =
     Flash_redirect ''Download failed. Please try again with a different quality option.''
       ''error'' \<and>
   fs (snd (download_video failing_engine audio_request empty_world)) ''/tmp/tmp0'' =
     Some [(''Some video.mp4.part'', Regular_file)]"
proof -
  have v: "is_valid_youtube_url (request_url audio_request)"
    by (simp add: request_url_audio_request valid_watch_url)
  have f: "fs empty_world ''/tmp/tmp0'' = None"
    by (simp add: empty_world_def)
  show ?thesis
    unfolding download_video_valid[OF v mkdtemp_empty_world]
    by (simp add: f Let_def failing_engine_def download_failure_def)
qed

text \<open>
  \<^bold>\<open>C2, amended.\<close> The only change \<open>download_video\<close> makes to the directories is to add
  one: for a valid URL the directory of the request exists when the call returns, on
  every exit path, holding what the library left in it (nothing when \<open>extract_info\<close>
  raised, the listing that \<open>download\<close> left otherwise, whether it raised or not, and
  whether or not a file was found); for an invalid URL no directory is created. No
  directory is removed.
\<close>

theorem workspace_never_removed:
  "fs (snd (download_video eng frm w)) =
     (if is_valid_youtube_url (request_url frm)
      then (fs w)(fst (mkdtemp w) \<mapsto>
             (case extract_info eng (download_opts (chosen_format frm) (fst (mkdtemp w)))
                     (request_url frm) of
                Inl e \<Rightarrow> []
              | Inr i \<Rightarrow> fst (download eng (download_opts (chosen_format frm) (fst (mkdtemp w)))
                                (request_url frm))))
      else fs w)"
proof (cases "is_valid_youtube_url (request_url frm)")
  case True
  obtain temp_dir w1 where m: "mkdtemp w = (temp_dir, w1)" by (cases "mkdtemp w")
  then have w1: "fs w1 = (fs w)(temp_dir \<mapsto> [])"
    by (auto simp: mkdtemp_def Let_def)
  show ?thesis
    using True w1
    by (simp add: download_video_valid[OF True m] m Let_def
        split: sum.splits option.splits list.splits prod.splits node.splits)
next
  case False
  then show ?thesis by (simp add: download_video_invalid)
qed

theorem workspace_never_removed_witness:
  "fs (snd (download_video failing_engine audio_request empty_world)) =
     (fs empty_world)(''/tmp/tmp0'' \<mapsto> [(''Some video.mp4.part'', Regular_file)])"
  using workspace_never_removed[of failing_engine audio_request empty_world]
  by (simp add: request_url_audio_request valid_watch_url mkdtemp_empty_world failing_engine_def
      some_info_def)

text \<open>
  \<^bold>\<open>C3\<close> as first stated maps an empty choice to the default. Line 120 reads the choice
  with \<^verbatim>\<open>request.form.get('format_id', 'best')\<close>, which falls back to \<open>best\<close> only when
  the field is absent: an empty field is passed on as the format \<open>''\<close>.
\<close>

theorem format_selector_empty_choice_counterexample:
  "chosen_format [''format_id'' \<mapsto> []] = [] \<and>
   format (download_opts (chosen_format [''format_id'' \<mapsto> []]) ''/tmp/tmp0'') = Some [] \<and>
   format (download_opts (chosen_format (\<lambda>k. None)) ''/tmp/tmp0'') = Some ''best''"
  by (simp add: download_opts_def chosen_format_def get_or_def)

text \<open>
  \<^bold>\<open>C3, amended.\<close> The choice \<open>bestaudio\<close> gives the audio extraction options (format
  \<open>bestaudio/best\<close>, post-processed to MP3 at 192); every other choice, the empty string
  included, is passed on as the format, verbatim and with no post-processing; an absent
  choice is the format \<open>best\<close>.
\<close>

theorem format_selector:
  "download_opts ''bestaudio'' d =
     \<lparr>quiet = None, no_warnings = None, extract_flat = None,
      cookies = Some ''/etc/secrets/cookies.txt'',
      format = Some ''bestaudio/best'',
      outtmpl = Some (path_join d ''%(title)s.%(ext)s''),
      postprocessors = Some [\<lparr>key = ''FFmpegExtractAudio'', preferredcodec = ''mp3'',
                               preferredquality = ''192''\<rparr>]\<rparr> \<and>
   (c \<noteq> ''bestaudio'' \<longrightarrow>
      download_opts c d =
        \<lparr>quiet = None, no_warnings = None, extract_flat = None,
         cookies = Some ''/etc/secrets/cookies.txt'',
         format = Some c,
         outtmpl = Some (path_join d ''%(title)s.%(ext)s''),
         postprocessors = None\<rparr>) \<and>
   (frm ''format_id'' = Some c \<longrightarrow> chosen_format frm = c) \<and>
   (frm' ''format_id'' = None \<longrightarrow>
      chosen_format frm' = ''best'' \<and>
      format (download_opts (chosen_format frm') d) = Some ''best'' \<and>
      postprocessors (download_opts (chosen_format frm') d) = None)"
  by (simp add: download_opts_def chosen_format_def get_or_def)

theorem format_selector_witness:
  "[] \<noteq> ''bestaudio'' \<and>
   [''format_id'' \<mapsto> []] ''format_id'' = Some [] \<and>
   chosen_format [''format_id'' \<mapsto> []] = [] \<and>
   format (download_opts [] ''/tmp/tmp0'') = Some [] \<and>
   chosen_format (\<lambda>k. None) = ''best''"
  using format_selector[of "''/tmp/tmp0''" "[]" "[''format_id'' \<mapsto> []]" "\<lambda>k. None"]
  by simp

end
